theory Spec2Isabelle
  imports Main "HOL-Library.Sublist"
begin

section \<open>External collaborators\<close>

text \<open>
  The module \<open>h5pxblock/utils.py\<close> is glue between four libraries: \<open>os.path\<close>,
  \<open>zipfile\<close>, \<open>logging\<close> and a Django storage object handed in by the caller. This
  section fixes how each of them is represented. Everything under the later section
  headed by the module's name is a transcription of the module itself; its two
  configuration helpers, \<open>get_h5p_storage\<close> and \<open>str2bool\<close>, take no part in an
  extraction and are left out.
\<close>

type_synonym bytes = string

subsection \<open>\<open>os.path\<close> on strings (posixpath)\<close>

text \<open>
  \<open>os.path.join(a, b)\<close>: an absolute \<open>b\<close> replaces \<open>a\<close>; otherwise \<open>b\<close> is appended,
  with a separator unless \<open>a\<close> is empty or already ends in one.
\<close>

definition os_path_join :: "string \<Rightarrow> string \<Rightarrow> string" where
  "os_path_join a b =
     (if b \<noteq> [] \<and> hd b = CHR ''/'' then b
      else if a = [] \<or> last a = CHR ''/'' then a @ b
      else a @ ''/'' @ b)"

text \<open>\<open>os.path.basename(p)\<close>: everything after the last separator.\<close>

definition os_path_basename :: "string \<Rightarrow> string" where
  "os_path_basename p = rev (takeWhile (\<lambda>c. c \<noteq> CHR ''/'') (rev p))"

subsection \<open>Exceptions and log records\<close>

datatype error =
    RecursionError
  | FileExistsError
  | FileNotFoundError
  | NotADirectoryError
  | IsADirectoryError
  | ValueError

datatype log_record = LogInfo string | LogError string

record logger =
  logs :: "log_record list"

subsection \<open>The uploaded package\<close>

text \<open>
  \<open>package\<close> is an uploaded file object. The module reads its \<open>name\<close>, asks
  \<open>is_zipfile\<close> about it, and, once opened as a \<open>ZipFile\<close>, its \<open>namelist()\<close> and
  \<open>read(name)\<close>. Opening an archive that \<open>is_zipfile\<close> accepts and reading a listed member
  are taken to succeed.
\<close>

record package =
  pkg_name :: string
  is_zipfile :: bool
  namelist :: "string list"
  zip_read :: "string \<Rightarrow> bytes"

subsection \<open>The storage backend and the worker pool\<close>

text \<open>
  The storage object is a parameter of the module's functions, and it stays one here:
  four operations over a backend state \<open>'st\<close> left abstract. \<open>exists\<close> and \<open>listdir\<close>
  are called by the submitting thread; they only read the state and are taken to
  return. \<open>delete\<close> and \<open>save\<close> run as pool tasks; each returns the outcome the
  task's future will carry (\<open>Inl\<close> the text of the exception raised, \<open>Inr\<close> the text of
  the value returned) together with the new state.
\<close>

record 'st storage =
  st_exists :: "string \<Rightarrow> 'st \<Rightarrow> bool"
  st_listdir :: "string \<Rightarrow> 'st \<Rightarrow> string list \<times> string list"
  st_delete :: "string \<Rightarrow> 'st \<Rightarrow> (string + string) \<times> 'st"
  st_save :: "string \<Rightarrow> bytes \<Rightarrow> 'st \<Rightarrow> (string + string) \<times> 'st"

datatype task = Delete string | Save string bytes

text \<open>
  What the module does to the outside world is recorded as a trace: the synchronous
  storage calls, the opening and closing of a \<open>ThreadPoolExecutor\<close> scope, and every
  task submitted to the pool. The size of the pool, \<open>MAX_WORKERS\<close>, decides how many
  tasks run at the same time and has no part in what is submitted or in which order.
\<close>

datatype event = Exists string | Listdir string | PoolOpen | Submit task | PoolClose

record 'st cloud = logger +
  store :: 'st
  events :: "event list"

subsection \<open>The local filesystem and \<open>ZipFile.extractall\<close>\<close>

text \<open>
  The local functions pass their \<open>path\<close> straight to \<open>os\<close>, \<open>shutil\<close> and \<open>zipfile\<close>
  and never look inside it, so a destination is represented by the location it resolves
  to: the list of its components below a base directory, which is the location \<open>[]\<close>.
  The filesystem is a table from locations to nodes; there are no links and no
  permissions.
\<close>

type_synonym location = "string list"

datatype node = DirN | FileN bytes

type_synonym filesystem = "location \<rightharpoonup> node"

record local = logger +
  disk :: filesystem

definition is_file :: "node option \<Rightarrow> bool" where
  "is_file n = (case n of Some (FileN b) \<Rightarrow> True | _ \<Rightarrow> False)"

definition os_path_exists :: "location \<Rightarrow> filesystem \<Rightarrow> bool" where
  "os_path_exists p f = (f p \<noteq> None)"

text \<open>\<open>shutil.rmtree(p)\<close> removes \<open>p\<close> and everything below it; it refuses a regular file.\<close>

definition shutil_rmtree :: "location \<Rightarrow> filesystem \<Rightarrow> error + filesystem" where
  "shutil_rmtree p f =
     (case f p of
        None \<Rightarrow> Inl FileNotFoundError
      | Some (FileN b) \<Rightarrow> Inl NotADirectoryError
      | Some DirN \<Rightarrow> Inr (\<lambda>k. if prefix p k then None else f k))"

text \<open>
  \<open>os.makedirs(p)\<close> creates \<open>p\<close> and every missing directory above it. It raises when
  \<open>p\<close> is already there, and when a regular file stands where a directory is needed.
\<close>

definition os_makedirs :: "location \<Rightarrow> filesystem \<Rightarrow> error + filesystem" where
  "os_makedirs p f =
     (if f p \<noteq> None then Inl FileExistsError
      else if list_ex (\<lambda>q. is_file (f q)) (prefixes p) then Inl NotADirectoryError
      else Inr (\<lambda>k. if prefix k p \<and> f k = None then Some DirN else f k))"

definition parent_error :: "location \<Rightarrow> filesystem \<Rightarrow> error option" where
  "parent_error p f =
     (case f (butlast p) of
        Some DirN \<Rightarrow> None
      | Some (FileN b) \<Rightarrow> Some NotADirectoryError
      | None \<Rightarrow> Some FileNotFoundError)"

definition os_mkdir :: "location \<Rightarrow> filesystem \<Rightarrow> error + filesystem" where
  "os_mkdir p f =
     (if f p \<noteq> None then Inl FileExistsError
      else case parent_error p f of Some e \<Rightarrow> Inl e | None \<Rightarrow> Inr (f(p \<mapsto> DirN)))"

text \<open>\<open>open(p, "wb")\<close> followed by the copy of the member's bytes.\<close>

definition write_file :: "location \<Rightarrow> bytes \<Rightarrow> filesystem \<Rightarrow> error + filesystem" where
  "write_file p b f =
     (if f p = Some DirN then Inl IsADirectoryError
      else case parent_error p f of Some e \<Rightarrow> Inl e | None \<Rightarrow> Inr (f(p \<mapsto> FileN b)))"

text \<open>\<open>name.split('/')\<close>.\<close>

fun split_sep :: "string \<Rightarrow> string list" where
  "split_sep [] = [[]]"
| "split_sep (c # cs) =
     (if c = CHR ''/'' then [] # split_sep cs
      else (case split_sep cs of [] \<Rightarrow> [[c]] | x # xs \<Rightarrow> (c # x) # xs))"

text \<open>
  \<open>ZipFile._extract_member\<close>: the member's name loses its empty, \<open>.\<close> and \<open>..\<close>
  components and is placed below the target; the directories above it are created when
  missing; a member whose name ends in a separator becomes a directory, any other a
  file with the member's bytes. A file member with nothing left of its name is refused
  (\<open>ValueError\<close>; interpreters before that check fail in \<open>open\<close> instead).
\<close>

definition arcname :: "string \<Rightarrow> location" where
  "arcname member = filter (\<lambda>x. x \<notin> {'''', ''.'', ''..''}) (split_sep member)"

definition is_dir :: "string \<Rightarrow> bool" where
  "is_dir member = (member \<noteq> [] \<and> last member = CHR ''/'')"

definition extract_member :: "package \<Rightarrow> string \<Rightarrow> location \<Rightarrow> filesystem \<Rightarrow> error + filesystem" where
  "extract_member zf member path f =
     (let targetpath = path @ arcname member;
          upperdirs = butlast targetpath
      in if arcname member = [] \<and> \<not> is_dir member then Inl ValueError
         else
           (case (if upperdirs \<noteq> [] \<and> \<not> os_path_exists upperdirs f
                  then os_makedirs upperdirs f else Inr f) of
              Inl e \<Rightarrow> Inl e
            | Inr f1 \<Rightarrow>
                if is_dir member
                then (if f1 targetpath = Some DirN then Inr f1 else os_mkdir targetpath f1)
                else write_file targetpath (zip_read zf member) f1))"

text \<open>
  \<open>extractall(path)\<close> extracts the members in the order of \<open>namelist()\<close>. The first
  exception ends it; what was extracted before stays.
\<close>

fun extract_members ::
      "package \<Rightarrow> string list \<Rightarrow> location \<Rightarrow> filesystem \<Rightarrow> error option \<times> filesystem" where
  "extract_members zf [] path f = (None, f)"
| "extract_members zf (member # members) path f =
     (case extract_member zf member path f of
        Inl e \<Rightarrow> (Some e, f)
      | Inr f' \<Rightarrow> extract_members zf members path f')"

definition extractall :: "package \<Rightarrow> location \<Rightarrow> filesystem \<Rightarrow> error option \<times> filesystem" where
  "extractall zf path f = extract_members zf (namelist zf) path f"

section \<open>h5pxblock/utils.py\<close>

subsection \<open>\<open>future_result_handler\<close>\<close>

text \<open>
  The done-callback of every future: the result is logged at level info, an exception
  at level error. It never re-raises.
\<close>

definition future_result_handler :: "string + string \<Rightarrow> log_record" where
  "future_result_handler future =
     (case future of
        Inr result \<Rightarrow> LogInfo (''Future task completed: Result:['' @ result @ '']'')
      | Inl exp \<Rightarrow> LogError (''Future completed with error '' @ exp))"

text \<open>
  \<open>future = executor.submit(f, args); future.add_done_callback(future_result_handler)\<close>.
  The submitting thread touches the backend only through the pool between the opening
  and the closing of a scope, and the scope's exit waits for every task; the model lets
  each task take effect, and its callback log, at the moment of submission, so the tasks
  of one scope run in submission order. Which tasks overlap in time is not represented.
\<close>

definition run_task :: "'st storage \<Rightarrow> task \<Rightarrow> 'st \<Rightarrow> (string + string) \<times> 'st" where
  "run_task storage t s =
     (case t of
        Delete file_path \<Rightarrow> st_delete storage file_path s
      | Save real_path content \<Rightarrow> st_save storage real_path content s)"

definition submit :: "'st storage \<Rightarrow> task \<Rightarrow> 'st cloud \<Rightarrow> 'st cloud" where
  "submit storage t w =
     w\<lparr>store := snd (run_task storage t (store w)),
       events := events w @ [Submit t],
       logs := logs w @ [future_result_handler (fst (run_task storage t (store w)))]\<rparr>"

subsection \<open>\<open>delete_path\<close>\<close>

definition delete_path :: "location \<Rightarrow> local \<Rightarrow> error option \<times> local" where
  "delete_path path w =
     (if os_path_exists path (disk w)
      then (case shutil_rmtree path (disk w) of
              Inl e \<Rightarrow> (Some e, w)
            | Inr f \<Rightarrow> (None, w\<lparr>disk := f\<rparr>))
      else (None, w))"

subsection \<open>\<open>unpack_package_local_path\<close>\<close>

definition unpack_package_local_path ::
      "package \<Rightarrow> location \<Rightarrow> local \<Rightarrow> error option \<times> local" where
  "unpack_package_local_path package path w =
     (case delete_path path w of
        (Some e, w1) \<Rightarrow> (Some e, w1)
      | (None, w1) \<Rightarrow>
          (case os_makedirs path (disk w1) of
             Inl e \<Rightarrow> (Some e, w1)
           | Inr f \<Rightarrow>
               if \<not> is_zipfile package
               then (None, w1\<lparr>disk := f,
                               logs := logs w1 @ [LogError (pkg_name package @ '' is not a valid zip'')]\<rparr>)
               else
                 (fst (extractall package path f),
                  w1\<lparr>disk := snd (extractall package path f),
                     logs := logs w1 @
                       [LogInfo (''Extracting all the files now from '' @ pkg_name package)]\<rparr>)))"

subsection \<open>\<open>delete_existing_files_cloud\<close>\<close>

text \<open>The loop \<open>for file_name in file_names\<close> inside the executor scope.\<close>

fun delete_files :: "'st storage \<Rightarrow> string \<Rightarrow> string list \<Rightarrow> 'st cloud \<Rightarrow> 'st cloud" where
  "delete_files storage path [] w = w"
| "delete_files storage path (file_name # file_names) w =
     delete_files storage path file_names
       (submit storage (Delete (os_path_join path file_name)) w)"

text \<open>
  The function calls itself once per subdirectory. The first argument is the number of
  nested calls the interpreter still allows: at \<open>0\<close> the call raises \<open>RecursionError\<close>,
  which nothing in the module catches, so it ends the loop over the sibling directories
  and every enclosing call. The effects already made stay.
\<close>

fun delete_existing_files_cloud ::
      "nat \<Rightarrow> 'st storage \<Rightarrow> string \<Rightarrow> 'st cloud \<Rightarrow> error option \<times> 'st cloud"
  and delete_dirs ::
      "nat \<Rightarrow> 'st storage \<Rightarrow> string \<Rightarrow> string list \<Rightarrow> 'st cloud \<Rightarrow> error option \<times> 'st cloud"
where
  "delete_existing_files_cloud 0 storage path w = (Some RecursionError, w)"
| "delete_existing_files_cloud (Suc depth) storage path w =
     (if st_exists storage path (store w) then
        (let (dir_names, file_names) = st_listdir storage path (store w);
             w1 = w\<lparr>events := events w @ [Exists path, Listdir path, PoolOpen],
                    logs := logs w @ [LogInfo (path @ '' path is being deleted on cloud'')]\<rparr>;
             w2 = delete_files storage path file_names w1;
             w3 = w2\<lparr>events := events w2 @ [PoolClose]\<rparr>
         in delete_dirs depth storage path dir_names w3)
      else (None, w\<lparr>events := events w @ [Exists path]\<rparr>))"
| "delete_dirs depth storage path [] w = (None, w)"
| "delete_dirs depth storage path (dir_name # dir_names) w =
     (case delete_existing_files_cloud depth storage (os_path_join path dir_name) w of
        (Some e, w') \<Rightarrow> (Some e, w')
      | (None, w') \<Rightarrow> delete_dirs depth storage path dir_names w')"

subsection \<open>\<open>unpack_and_upload_on_cloud\<close>\<close>

text \<open>The loop \<open>for zipfile_name in h5p_zip.namelist()\<close>.\<close>

fun upload_entries ::
      "package \<Rightarrow> 'st storage \<Rightarrow> string \<Rightarrow> string list \<Rightarrow> 'st cloud \<Rightarrow> 'st cloud" where
  "upload_entries h5p_zip storage path [] w = w"
| "upload_entries h5p_zip storage path (zipfile_name # rest) w =
     (let real_path = os_path_join path zipfile_name
      in upload_entries h5p_zip storage path rest
           (if os_path_basename real_path \<notin> {'''', ''.'', ''..''}
            then submit storage (Save real_path (zip_read h5p_zip zipfile_name)) w
            else w))"

definition unpack_and_upload_on_cloud ::
      "nat \<Rightarrow> package \<Rightarrow> 'st storage \<Rightarrow> string \<Rightarrow> 'st cloud \<Rightarrow> error option \<times> 'st cloud" where
  "unpack_and_upload_on_cloud depth package storage path w =
     (if \<not> is_zipfile package
      then (None, w\<lparr>logs := logs w @ [LogError (pkg_name package @ '' is not a valid zip'')]\<rparr>)
      else
        (case delete_existing_files_cloud depth storage path w of
           (Some e, w1) \<Rightarrow> (Some e, w1)
         | (None, w1) \<Rightarrow>
             (let w2 = w1\<lparr>events := events w1 @ [PoolOpen]\<rparr>;
                  w3 = upload_entries package storage path (namelist package) w2
              in (None, w3\<lparr>events := events w3 @ [PoolClose]\<rparr>))))"

section \<open>Observations on traces and filesystems\<close>

text \<open>The write tasks of a trace, in submission order: storage key and content.\<close>

definition writes :: "event list \<Rightarrow> (string \<times> bytes) list" where
  "writes es = concat (map (\<lambda>e. case e of Submit (Save k b) \<Rightarrow> [(k, b)] | _ \<Rightarrow> []) es)"

text \<open>What a filesystem holds at a location and below it.\<close>

definition contents :: "location \<Rightarrow> filesystem \<Rightarrow> filesystem" where
  "contents path f = (\<lambda>k. if prefix path k then f k else None)"

text \<open>The filesystem that holds an empty directory at a location, the directories above it, and nothing else.\<close>

definition new_directory :: "location \<Rightarrow> filesystem" where
  "new_directory path = (\<lambda>k. if prefix k path then Some DirN else None)"

text \<open>A location and everything above it are directories.\<close>

definition dir_chain :: "location \<Rightarrow> filesystem \<Rightarrow> bool" where
  "dir_chain path f = list_all (\<lambda>q. f q = Some DirN) (prefixes path)"

text \<open>
  Two filesystems that cannot be told apart by an extraction into \<open>path\<close>: the same
  nodes at and below \<open>path\<close>, and directories all the way down to it.
\<close>

definition agree :: "location \<Rightarrow> filesystem \<Rightarrow> filesystem \<Rightarrow> bool" where
  "agree path f g = (contents path f = contents path g \<and> dir_chain path f \<and> dir_chain path g)"

section \<open>A key-value backend and sample inputs\<close>

text \<open>
  An instance of the storage interface: the state is a table from keys to contents,
  \<open>delete\<close> removes a key and returns \<open>None\<close>, \<open>save\<close> stores under the key it is given
  and returns that key. The two listing operations and the keys on which \<open>delete\<close> or
  \<open>save\<close> raise are parameters.
\<close>

definition blob_storage ::
  "(string \<Rightarrow> (string \<rightharpoonup> bytes) \<Rightarrow> bool) \<Rightarrow>
   (string \<Rightarrow> (string \<rightharpoonup> bytes) \<Rightarrow> string list \<times> string list) \<Rightarrow>
   (string \<Rightarrow> string option) \<Rightarrow> (string \<Rightarrow> string option) \<Rightarrow> (string \<rightharpoonup> bytes) storage" where
  "blob_storage ex ls delete_error save_error =
     \<lparr>st_exists = ex,
      st_listdir = ls,
      st_delete = (\<lambda>k m. case delete_error k of
                     Some msg \<Rightarrow> (Inl msg, m)
                   | None \<Rightarrow> (Inr ''None'', m(k := None))),
      st_save = (\<lambda>k b m. case save_error k of
                     Some msg \<Rightarrow> (Inl msg, m)
                   | None \<Rightarrow> (Inr k, m(k \<mapsto> b)))\<rparr>"

definition demo_exists :: "string \<Rightarrow> (string \<rightharpoonup> bytes) \<Rightarrow> bool" where
  "demo_exists p m = (p = ''h5p'' \<or> p = ''h5p/assets'')"

definition demo_listdir :: "string \<Rightarrow> (string \<rightharpoonup> bytes) \<Rightarrow> string list \<times> string list" where
  "demo_listdir p m =
     (if p = ''h5p'' then
        ([''assets''], filter (\<lambda>f. m (''h5p/'' @ f) \<noteq> None) [''index.html'', ''old.js''])
      else if p = ''h5p/assets'' then
        ([], filter (\<lambda>f. m (''h5p/assets/'' @ f) \<noteq> None) [''x.png'', ''y.png''])
      else ([], []))"

definition demo_storage :: "(string \<rightharpoonup> bytes) storage" where
  "demo_storage = blob_storage demo_exists demo_listdir (\<lambda>k. None) (\<lambda>k. None)"

definition demo_world :: "(string \<rightharpoonup> bytes) cloud" where
  "demo_world =
     \<lparr>logs = [], store = [''h5p/old.js'' \<mapsto> ''OLD'', ''h5p/assets/y.png'' \<mapsto> ''Y''], events = []\<rparr>"

definition demo_package :: package where
  "demo_package =
     \<lparr>pkg_name = ''demo.h5p'', is_zipfile = True,
      namelist = [''index.html'', ''../evil.js'', ''assets/x.png''],
      zip_read = (\<lambda>n. if n = ''index.html'' then ''<html>''
                      else if n = ''../evil.js'' then ''evil()''
                      else if n = ''assets/x.png'' then ''PNG'' else [])\<rparr>"

definition dirs_package :: package where
  "dirs_package =
     \<lparr>pkg_name = ''dirs.h5p'', is_zipfile = True,
      namelist = [''assets/'', ''index.html'', ''assets/..''],
      zip_read = (\<lambda>n. if n = ''index.html'' then ''<html>'' else [])\<rparr>"

definition update_package :: package where
  "update_package =
     \<lparr>pkg_name = ''update.h5p'', is_zipfile = True,
      namelist = [''lib/'', ''lib/app.js''],
      zip_read = (\<lambda>n. if n = ''lib/app.js'' then ''app()'' else [])\<rparr>"

definition text_package :: package where
  "text_package =
     \<lparr>pkg_name = ''notes.txt'', is_zipfile = False, namelist = [], zip_read = (\<lambda>n. [])\<rparr>"

definition demo_local :: local where
  "demo_local =
     \<lparr>logs = [],
      disk = [[] \<mapsto> DirN, [''srv''] \<mapsto> DirN, [''srv'', ''h5p''] \<mapsto> DirN,
              [''srv'', ''h5p'', ''stale.js''] \<mapsto> FileN ''OLD'']\<rparr>"









section \<open>Paths\<close>

lemma basename_append_sep: "os_path_basename (a @ CHR ''/'' # b) = os_path_basename b"
  by (simp add: os_path_basename_def takeWhile_tail)

text \<open>Joining a name onto a prefix never changes its basename.\<close>

lemma basename_join: "os_path_basename (os_path_join a b) = os_path_basename b"
proof (cases "b \<noteq> [] \<and> hd b = CHR ''/''")
  case True
  then show ?thesis by (simp add: os_path_join_def)
next
  case nabs: False
  show ?thesis
  proof (cases "a = []")
    case True
    with nabs show ?thesis by (simp add: os_path_join_def)
  next
    case ne: False
    show ?thesis
    proof (cases "last a = CHR ''/''")
      case True
      with ne have "a = butlast a @ [CHR ''/'']"
        by (metis append_butlast_last_id)
      then have "a @ b = butlast a @ CHR ''/'' # b"
        by (metis append_Cons append_Nil append_assoc)
      then have "os_path_basename (a @ b) = os_path_basename b"
        by (simp only: basename_append_sep)
      with nabs ne True show ?thesis by (simp add: os_path_join_def)
    next
      case False
      with nabs ne show ?thesis
        using basename_append_sep [of a b] by (simp add: os_path_join_def)
    qed
  qed
qed

section \<open>Traces\<close>

lemma writes_append: "writes (xs @ ys) = writes xs @ writes ys"
  by (simp add: writes_def)

lemma writes_simps:
  "writes [] = []"
  "writes (Exists p # es) = writes es"
  "writes (Listdir p # es) = writes es"
  "writes (PoolOpen # es) = writes es"
  "writes (PoolClose # es) = writes es"
  "writes (Submit (Delete k) # es) = writes es"
  "writes (Submit (Save k b) # es) = (k, b) # writes es"
  by (simp_all add: writes_def)

lemma writes_deletes: "writes (map (\<lambda>f. Submit (Delete (g f))) fs) = []"
  by (induction fs) (simp_all add: writes_simps)

lemma writes_saves: "writes (map (\<lambda>n. Submit (Save (g n) (h n))) ns) = map (\<lambda>n. (g n, h n)) ns"
  by (induction ns) (simp_all add: writes_simps)

lemma events_submit: "events (submit storage t w) = events w @ [Submit t]"
  by (simp add: submit_def)

lemma events_delete_files:
  "events (delete_files storage path fs w) = events w @ map (\<lambda>f. Submit (Delete (os_path_join path f))) fs"
  by (induction fs arbitrary: w) (simp_all add: events_submit)

lemma events_upload_entries:
  "events (upload_entries z storage path ns w) =
     events w @ map (\<lambda>n. Submit (Save (os_path_join path n) (zip_read z n)))
       (filter (\<lambda>n. os_path_basename (os_path_join path n) \<notin> {'''', ''.'', ''..''}) ns)"
  by (induction ns arbitrary: w) (simp_all add: events_submit Let_def)

text \<open>
  An invariant of backend state and trace that every delete task and every other event
  of the cleanup preserves holds after the cleanup, however it ends.
\<close>

lemma delete_files_invariant:
  assumes step: "\<And>s es k. P s es \<Longrightarrow> P (snd (st_delete storage k s)) (es @ [Submit (Delete k)])"
  shows "P (store w) (events w) \<Longrightarrow>
         P (store (delete_files storage path fs w)) (events (delete_files storage path fs w))"
proof (induction fs arbitrary: w)
  case Nil
  then show ?case by simp
next
  case (Cons f fs)
  have "P (store (submit storage (Delete (os_path_join path f)) w))
          (events (submit storage (Delete (os_path_join path f)) w))"
    using step [OF Cons.prems] by (simp add: submit_def run_task_def)
  from Cons.IH [OF this] show ?case by simp
qed

lemma cleanup_invariant:
  "(\<And>s es k. P s es \<Longrightarrow> P (snd (st_delete storage k s)) (es @ [Submit (Delete k)])) \<Longrightarrow>
   (\<And>s es e. P s es \<Longrightarrow> (\<forall>t. e \<noteq> Submit t) \<Longrightarrow> P s (es @ [e])) \<Longrightarrow>
   P (store w) (events w) \<Longrightarrow>
     P (store (snd (delete_existing_files_cloud depth storage path w)))
       (events (snd (delete_existing_files_cloud depth storage path w)))"
  "(\<And>s es k. P s es \<Longrightarrow> P (snd (st_delete storage k s)) (es @ [Submit (Delete k)])) \<Longrightarrow>
   (\<And>s es e. P s es \<Longrightarrow> (\<forall>t. e \<noteq> Submit t) \<Longrightarrow> P s (es @ [e])) \<Longrightarrow>
   P (store w) (events w) \<Longrightarrow>
     P (store (snd (delete_dirs depth storage path dir_names w)))
       (events (snd (delete_dirs depth storage path dir_names w)))"
proof (induction depth storage path w and depth storage path dir_names w
    rule: delete_existing_files_cloud_delete_dirs.induct)
  case (1 storage path w)
  then show ?case by simp
next
  case (2 depth storage path w)
  note step = "2.prems"(1) and noop = "2.prems"(2) and p0 = "2.prems"(3)
  show ?case
  proof (cases "st_exists storage path (store w)")
    case False
    with noop [OF p0, of "Exists path"] show ?thesis by simp
  next
    case True
    obtain ds fs where l: "st_listdir storage path (store w) = (ds, fs)"
      by (cases "st_listdir storage path (store w)")
    define w1 where "w1 = w\<lparr>events := events w @ [Exists path, Listdir path, PoolOpen],
                    logs := logs w @ [LogInfo (path @ '' path is being deleted on cloud'')]\<rparr>"
    define w2 where "w2 = delete_files storage path fs w1"
    define w3 where "w3 = w2\<lparr>events := events w2 @ [PoolClose]\<rparr>"
    have r: "delete_existing_files_cloud (Suc depth) storage path w = delete_dirs depth storage path ds w3"
      using True l by (simp add: w1_def w2_def w3_def Let_def)
    have "P (store w) (((events w @ [Exists path]) @ [Listdir path]) @ [PoolOpen])"
      by (intro noop p0) simp_all
    then have p1: "P (store w1) (events w1)" by (simp add: w1_def)
    have "P (store w2) (events w2)"
      unfolding w2_def by (rule delete_files_invariant [where P = P]) (rule step, assumption, rule p1)
    then have p3: "P (store w3) (events w3)"
      using noop [of "store w2" "events w2" PoolClose] by (simp add: w3_def)
    have "P (store (snd (delete_dirs depth storage path ds w3)))
            (events (snd (delete_dirs depth storage path ds w3)))"
      by (rule "2.IH" [OF True l [symmetric] refl w1_def w2_def w3_def]) (rule step, assumption, rule noop, assumption+, rule p3)
    with r show ?thesis by simp
  qed
next
  case (3 depth storage path w)
  then show ?case by simp
next
  case (4 depth storage path dir_name dir_names w)
  note step = "4.prems"(1) and noop = "4.prems"(2) and p0 = "4.prems"(3)
  obtain eo w' where r: "delete_existing_files_cloud depth storage (os_path_join path dir_name) w = (eo, w')"
    by (cases "delete_existing_files_cloud depth storage (os_path_join path dir_name) w")
  have "P (store (snd (delete_existing_files_cloud depth storage (os_path_join path dir_name) w)))
          (events (snd (delete_existing_files_cloud depth storage (os_path_join path dir_name) w)))"
    by (rule "4.IH"(1)) (rule step, assumption, rule noop, assumption+, rule p0)
  with r have p: "P (store w') (events w')" by simp
  show ?case
  proof (cases eo)
    case (Some e)
    with r p show ?thesis by simp
  next
    case None
    have "P (store (snd (delete_dirs depth storage path dir_names w')))
            (events (snd (delete_dirs depth storage path dir_names w')))"
      by (rule "4.IH"(2) [OF r [symmetric] None]) (rule step, assumption, rule noop, assumption+, rule p)
    with r None show ?thesis by simp
  qed
qed

text \<open>The cleanup only extends the trace, and never with a write.\<close>

lemma cleanup_events:
  "\<exists>es. events (snd (delete_existing_files_cloud depth storage path w)) = events w @ es \<and> writes es = []"
  "\<exists>es. events (snd (delete_dirs depth storage path dir_names w)) = events w @ es \<and> writes es = []"
proof -
  let ?P = "\<lambda>(s::'a) es'. \<exists>es. es' = events w @ es \<and> writes es = []"
  have step: "?P (snd (st_delete storage k s)) (es @ [Submit (Delete k)])" if "?P s es" for s es k
    using that by (auto simp: writes_append writes_simps)
  have noop: "?P s (es @ [e])" if "?P s es" "\<forall>t. e \<noteq> Submit t" for s es e
    using that by (cases e) (auto simp: writes_append writes_simps)
  have init: "?P (store w) (events w)" by (simp add: writes_simps)
  show "\<exists>es. events (snd (delete_existing_files_cloud depth storage path w)) = events w @ es \<and> writes es = []"
    by (rule cleanup_invariant(1) [where P = ?P, OF step noop init])
  show "\<exists>es. events (snd (delete_dirs depth storage path dir_names w)) = events w @ es \<and> writes es = []"
    by (rule cleanup_invariant(2) [where P = ?P, OF step noop init])
qed

lemma cleanup_prefix:
  "prefix (events w) (events (snd (delete_dirs depth storage path dir_names w)))"
  using cleanup_events(2) [of depth storage path dir_names w] by auto

lemma logs_upload_entries:
  "\<exists>outcomes. logs (upload_entries z storage path ns w) = logs w @ map future_result_handler outcomes \<and>
     length outcomes = length (filter (\<lambda>n. os_path_basename (os_path_join path n) \<notin> {'''', ''.'', ''..''}) ns)"
proof -
  define keep where "keep = (\<lambda>n. os_path_basename (os_path_join path n) \<notin> {'''', ''.'', ''..''})"
  have step: "upload_entries z storage path (n # ns) w =
      upload_entries z storage path ns
        (if keep n then submit storage (Save (os_path_join path n) (zip_read z n)) w else w)"
    for n ns w by (simp add: keep_def Let_def)
  have "\<exists>outcomes. logs (upload_entries z storage path ns w) = logs w @ map future_result_handler outcomes \<and>
     length outcomes = length (filter keep ns)"
  proof (induction ns arbitrary: w)
    case Nil
    show ?case by simp
  next
    case (Cons n ns)
    show ?case
    proof (cases "keep n")
      case False
      with Cons [of w] show ?thesis by (simp only: step if_False filter.simps)
    next
      case True
      define w' where "w' = submit storage (Save (os_path_join path n) (zip_read z n)) w"
      define o1 where "o1 = fst (run_task storage (Save (os_path_join path n) (zip_read z n)) (store w))"
      from Cons [of w'] obtain outs where
        o: "logs (upload_entries z storage path ns w') = logs w' @ map future_result_handler outs"
           "length outs = length (filter keep ns)"
        by blast
      have "logs w' = logs w @ [future_result_handler o1]"
        by (simp add: w'_def submit_def o1_def)
      with o have "logs (upload_entries z storage path ns w') = logs w @ map future_result_handler (o1 # outs)"
        "length (o1 # outs) = length (filter keep (n # ns))"
        using True by simp_all
      moreover have "upload_entries z storage path (n # ns) w = upload_entries z storage path ns w'"
        using True by (simp only: step w'_def if_True)
      ultimately show ?thesis by metis
    qed
  qed
  then show ?thesis by (simp only: keep_def)
qed

lemma upload_fst:
  "fst (unpack_and_upload_on_cloud depth package storage path w) =
     (if is_zipfile package then fst (delete_existing_files_cloud depth storage path w) else None)"
  by (simp add: unpack_and_upload_on_cloud_def Let_def split: prod.splits option.splits)

lemma upload_writes:
  "writes (events (snd (unpack_and_upload_on_cloud depth package storage path w))) =
     writes (events w) @
     (if is_zipfile package \<and> fst (delete_existing_files_cloud depth storage path w) = None
      then map (\<lambda>n. (os_path_join path n, zip_read package n))
             (filter (\<lambda>n. os_path_basename n \<notin> {'''', ''.'', ''..''}) (namelist package))
      else [])"
proof (cases "is_zipfile package")
  case False
  then show ?thesis by (simp add: unpack_and_upload_on_cloud_def)
next
  case True
  obtain eo w1 where c: "delete_existing_files_cloud depth storage path w = (eo, w1)"
    by (cases "delete_existing_files_cloud depth storage path w")
  from cleanup_events(1) [of depth storage path w] c
  have w1: "writes (events w1) = writes (events w)" by (auto simp: writes_append)
  show ?thesis
  proof (cases eo)
    case (Some e)
    with True c w1 show ?thesis by (simp add: unpack_and_upload_on_cloud_def)
  next
    case None
    with True c w1 show ?thesis
      by (simp add: unpack_and_upload_on_cloud_def Let_def events_upload_entries writes_append
            writes_simps writes_saves basename_join)
  qed
qed

lemma upload_logs:
  assumes "is_zipfile package"
      and "fst (delete_existing_files_cloud depth storage path w) = None"
  shows "\<exists>outcomes.
           logs (snd (unpack_and_upload_on_cloud depth package storage path w)) =
             logs (snd (delete_existing_files_cloud depth storage path w)) @
             map future_result_handler outcomes \<and>
           length outcomes =
             length (filter (\<lambda>n. os_path_basename n \<notin> {'''', ''.'', ''..''}) (namelist package))"
proof -
  obtain w1 where c: "delete_existing_files_cloud depth storage path w = (None, w1)"
    using assms(2) by (cases "delete_existing_files_cloud depth storage path w") simp
  from logs_upload_entries [of package storage path "namelist package" "w1\<lparr>events := events w1 @ [PoolOpen]\<rparr>"]
  show ?thesis using assms(1) c
    by (simp add: unpack_and_upload_on_cloud_def Let_def basename_join)
qed

section \<open>The key-value backend\<close>













section \<open>Extraction into a directory depends on that directory only\<close>

lemma dir_chain_iff: "dir_chain p f \<longleftrightarrow> (\<forall>q. prefix q p \<longrightarrow> f q = Some DirN)"
  by (auto simp: dir_chain_def list_all_iff)

lemma contents_eq_iff: "contents p f = contents p g \<longleftrightarrow> (\<forall>k. prefix p k \<longrightarrow> f k = g k)"
  by (auto simp: contents_def fun_eq_iff)

lemma contents_new_directory: "contents path (new_directory path) = [path \<mapsto> DirN]"
  by (auto simp: contents_def new_directory_def fun_eq_iff dest: prefix_order.antisym)

lemma agree_refl: "dir_chain p f \<Longrightarrow> agree p f f"
  by (simp add: agree_def)

lemma agree_at: "agree p f g \<Longrightarrow> prefix p k \<or> prefix k p \<Longrightarrow> f k = g k"
  by (auto simp: agree_def contents_eq_iff dir_chain_iff)

lemma agree_is_file_prefixes:
  assumes "agree p f g" "prefix p u"
  shows "list_ex (\<lambda>q. is_file (f q)) (prefixes u) = list_ex (\<lambda>q. is_file (g q)) (prefixes u)"
proof -
  have "f q = g q" if "prefix q u" for q
  proof -
    from that assms(2) have "prefix p q \<or> prefix q p"
      by (metis prefix_same_cases)
    with assms(1) show ?thesis by (rule agree_at)
  qed
  then show ?thesis by (auto simp: list_ex_iff)
qed

lemma agree_update:
  assumes "agree p f g" "strict_prefix p u"
  shows "agree p (f(u \<mapsto> v)) (g(u \<mapsto> v))"
  using assms by (auto simp: agree_def contents_eq_iff dir_chain_iff strict_prefix_def dest: prefix_order.antisym)

lemma agree_makedirs:
  assumes "agree p f g" "prefix p u"
  shows "rel_sum (=) (agree p) (os_makedirs u f) (os_makedirs u g)"
proof -
  have u: "f u = g u" using assms by (auto intro: agree_at)
  have a: "agree p (\<lambda>k. if prefix k u \<and> f k = None then Some DirN else f k)
                   (\<lambda>k. if prefix k u \<and> g k = None then Some DirN else g k)"
    using assms(1) by (auto simp: agree_def contents_eq_iff dir_chain_iff)
  show ?thesis
    using u a agree_is_file_prefixes [OF assms] by (simp add: os_makedirs_def)
qed

lemma agree_parent_error:
  assumes "agree p f g" "strict_prefix p u"
  shows "parent_error u f = parent_error u g"
proof -
  from assms(2) have "prefix p (butlast u)"
    by (metis prefix_snoc append_butlast_last_id strict_prefix_def prefix_bot.extremum_uniqueI)
  with assms(1) have "f (butlast u) = g (butlast u)" by (auto intro: agree_at)
  then show ?thesis by (simp add: parent_error_def)
qed

lemma agree_mkdir:
  assumes "agree p f g" "strict_prefix p u"
  shows "rel_sum (=) (agree p) (os_mkdir u f) (os_mkdir u g)"
proof -
  have u: "f u = g u" using assms by (auto intro: agree_at simp: strict_prefix_def)
  show ?thesis
    using u agree_parent_error [OF assms] agree_update [OF assms]
    by (auto simp: os_mkdir_def split: option.splits)
qed

lemma agree_write_file:
  assumes "agree p f g" "strict_prefix p u"
  shows "rel_sum (=) (agree p) (write_file u b f) (write_file u b g)"
proof -
  have u: "f u = g u" using assms by (auto intro: agree_at simp: strict_prefix_def)
  show ?thesis
    using u agree_parent_error [OF assms] agree_update [OF assms]
    by (auto simp: write_file_def split: option.splits)
qed

lemma agree_extract_member:
  assumes a: "agree p f g"
  shows "rel_sum (=) (agree p) (extract_member z m p f) (extract_member z m p g)"
proof (cases "arcname m = []")
  case True
  from a have "f p = Some DirN" "g p = Some DirN"
    by (auto simp: agree_def dir_chain_iff)
  moreover from a have "f (butlast p) = Some DirN" "g (butlast p) = Some DirN"
    by (auto simp: agree_def dir_chain_iff intro: prefixeq_butlast)
  ultimately show ?thesis
    using True a by (simp add: extract_member_def os_path_exists_def Let_def)
next
  case False
  define u where "u = p @ butlast (arcname m)"
  define t where "t = p @ arcname m"
  from False have bl: "butlast (p @ arcname m) = u"
    by (simp add: u_def butlast_append)
  have pu: "prefix p u" by (simp add: u_def)
  from False have pt: "strict_prefix p t" by (simp add: t_def strict_prefix_def)
  have fu: "f u = g u" using a pu by (auto intro: agree_at)
  define rf where "rf = (if u \<noteq> [] \<and> \<not> os_path_exists u f then os_makedirs u f else Inr f)"
  define rg where "rg = (if u \<noteq> [] \<and> \<not> os_path_exists u g then os_makedirs u g else Inr g)"
  have rel: "rel_sum (=) (agree p) rf rg"
    using fu a agree_makedirs [OF a pu] by (simp add: rf_def rg_def os_path_exists_def)
  have step: "rel_sum (=) (agree p)
      (if is_dir m then (if f1 t = Some DirN then Inr f1 else os_mkdir t f1)
       else write_file t (zip_read z m) f1)
      (if is_dir m then (if g1 t = Some DirN then Inr g1 else os_mkdir t g1)
       else write_file t (zip_read z m) g1)" if "agree p f1 g1" for f1 g1
  proof -
    from that pt have "f1 t = g1 t" by (auto intro: agree_at simp: strict_prefix_def)
    with that agree_mkdir [OF that pt] agree_write_file [OF that pt] show ?thesis by simp
  qed
  have ef: "extract_member z m p f =
      (case rf of Inl e \<Rightarrow> Inl e
       | Inr f1 \<Rightarrow> if is_dir m then (if f1 t = Some DirN then Inr f1 else os_mkdir t f1)
                  else write_file t (zip_read z m) f1)"
    using False bl unfolding extract_member_def rf_def t_def Let_def by simp
  have eg: "extract_member z m p g =
      (case rg of Inl e \<Rightarrow> Inl e
       | Inr f1 \<Rightarrow> if is_dir m then (if f1 t = Some DirN then Inr f1 else os_mkdir t f1)
                  else write_file t (zip_read z m) f1)"
    using False bl unfolding extract_member_def rg_def t_def Let_def by simp
  show ?thesis
  proof (cases rf)
    case (Inl e)
    with rel have "rg = Inl e" by (cases rg) simp_all
    with Inl ef eg show ?thesis by simp
  next
    case (Inr f1)
    with rel obtain g1 where "rg = Inr g1" "agree p f1 g1" by (cases rg) simp_all
    with Inr ef eg step [of f1 g1] show ?thesis by simp
  qed
qed

lemma agree_extract_members:
  "agree p f g \<Longrightarrow>
     fst (extract_members z ms p f) = fst (extract_members z ms p g) \<and>
     agree p (snd (extract_members z ms p f)) (snd (extract_members z ms p g))"
proof (induction ms arbitrary: f g)
  case Nil
  then show ?case by simp
next
  case (Cons m ms)
  note rel = agree_extract_member [OF Cons.prems, of z m]
  show ?case
  proof (cases "extract_member z m p f")
    case (Inl e)
    with rel have "extract_member z m p g = Inl e"
      by (cases "extract_member z m p g") simp_all
    with Inl Cons.prems show ?thesis by simp
  next
    case (Inr f1)
    with rel obtain g1 where "extract_member z m p g = Inr g1" "agree p f1 g1"
      by (cases "extract_member z m p g") simp_all
    with Inr Cons.IH [of f1 g1] show ?thesis by simp
  qed
qed

lemma extract_members_dir_chain:
  "dir_chain p f \<Longrightarrow> dir_chain p (snd (extract_members z ms p f))"
  using agree_extract_members [OF agree_refl, of p f z ms] by (simp add: agree_def)

lemma makedirs_dir_chain:
  assumes "os_makedirs p f = Inr f1"
  shows "dir_chain p f1"
proof -
  from assms have n: "\<not> list_ex (\<lambda>q. is_file (f q)) (prefixes p)"
    and f1: "f1 = (\<lambda>k. if prefix k p \<and> f k = None then Some DirN else f k)"
    by (auto simp: os_makedirs_def split: if_splits)
  have "f1 q = Some DirN" if "prefix q p" for q
  proof (cases "f q")
    case None
    with that show ?thesis by (simp add: f1)
  next
    case (Some n')
    from n that have "\<not> is_file (f q)" by (auto simp: list_ex_iff)
    with Some have "n' = DirN" by (cases n') (simp_all add: is_file_def)
    with Some show ?thesis by (simp add: f1)
  qed
  then show ?thesis by (simp add: dir_chain_iff)
qed

lemma makedirs_new_directory:
  assumes "os_makedirs p f = Inr f1" "\<forall>k. strict_prefix p k \<longrightarrow> f k = None"
  shows "agree p f1 (new_directory p)"
proof -
  from assms(1) have n: "f p = None" "\<not> list_ex (\<lambda>q. is_file (f q)) (prefixes p)"
    and f1: "f1 = (\<lambda>k. if prefix k p \<and> f k = None then Some DirN else f k)"
    by (auto simp: os_makedirs_def split: if_splits)
  have c: "f1 q = Some DirN" if "prefix q p" for q
  proof (cases "f q")
    case None
    with that show ?thesis by (simp add: f1)
  next
    case (Some n')
    from n(2) that have "\<not> is_file (f q)" by (auto simp: list_ex_iff)
    with Some have "n' = DirN" by (cases n') (simp_all add: is_file_def)
    with Some show ?thesis by (simp add: f1)
  qed
  have "f1 k = new_directory p k" if "prefix p k" for k
  proof (cases "k = p")
    case True
    with c [of p] show ?thesis by (simp add: new_directory_def)
  next
    case False
    with that have sp: "strict_prefix p k" by (simp add: strict_prefix_def)
    then have "\<not> prefix k p" by (auto simp: strict_prefix_def)
    with sp assms(2) show ?thesis by (simp add: f1 new_directory_def)
  qed
  with c show ?thesis
    by (simp add: agree_def contents_eq_iff dir_chain_iff new_directory_def)
qed

lemma dir_chain_no_file: "dir_chain p f \<Longrightarrow> \<not> list_ex (\<lambda>q. is_file (f q)) (prefixes p)"
  by (auto simp: dir_chain_iff list_ex_iff is_file_def)

text \<open>
  The first two steps of a local extraction, when no regular file stands at the
  destination or above it: whatever was there is removed and the destination is a new,
  empty directory.
\<close>

lemma prepare_destination:
  assumes nf: "\<not> list_ex (\<lambda>q. is_file (disk w q)) (prefixes path)"
      and wf: "disk w path = None \<Longrightarrow> contents path (disk w) = Map.empty"
  shows "\<exists>f0 f1. delete_path path w = (None, w\<lparr>disk := f0\<rparr>) \<and> os_makedirs path f0 = Inr f1 \<and>
           agree path f1 (new_directory path)"
proof -
  define f0 where "f0 = (\<lambda>k. if prefix path k then None else disk w k)"
  from nf have np: "\<not> is_file (disk w path)" and nq: "\<And>q. prefix q path \<Longrightarrow> \<not> is_file (disk w q)"
    by (auto simp: list_ex_iff)
  have d: "delete_path path w = (None, w\<lparr>disk := f0\<rparr>)"
  proof (cases "disk w path")
    case None
    have "disk w k = None" if "prefix path k" for k
    proof -
      have "contents path (disk w) k = None" by (simp add: wf [OF None])
      with that show ?thesis by (simp add: contents_def)
    qed
    then have "f0 = disk w" by (auto simp: f0_def fun_eq_iff)
    with None show ?thesis by (simp add: delete_path_def os_path_exists_def)
  next
    case (Some n)
    with np have "n = DirN" by (cases n) (simp_all add: is_file_def)
    with Some show ?thesis
      by (simp add: delete_path_def os_path_exists_def shutil_rmtree_def f0_def)
  qed
  have m0: "os_makedirs path f0 = Inr (\<lambda>k. if prefix k path \<and> f0 k = None then Some DirN else f0 k)"
  proof -
    have "\<not> is_file (f0 q)" if "prefix q path" for q
      using nq [OF that] by (simp add: f0_def is_file_def)
    then show ?thesis by (auto simp: os_makedirs_def f0_def list_ex_iff)
  qed
  have "agree path (\<lambda>k. if prefix k path \<and> f0 k = None then Some DirN else f0 k) (new_directory path)"
    by (rule makedirs_new_directory [OF m0]) (simp add: f0_def strict_prefix_def)
  with d m0 show ?thesis by blast
qed

lemma unpack_dir_chain:
  assumes "unpack_package_local_path package path w = (None, w1)"
  shows "dir_chain path (disk w1)"
proof -
  obtain eo w0 where d: "delete_path path w = (eo, w0)" by (cases "delete_path path w")
  with assms have eo: "eo = None" by (auto simp: unpack_package_local_path_def split: option.splits)
  from assms d eo obtain f where m: "os_makedirs path (disk w0) = Inr f"
    by (cases "os_makedirs path (disk w0)") (auto simp: unpack_package_local_path_def)
  from m have c: "dir_chain path f" by (rule makedirs_dir_chain)
  show ?thesis
  proof (cases "is_zipfile package")
    case False
    with assms d eo m c show ?thesis by (auto simp: unpack_package_local_path_def)
  next
    case True
    with assms d eo m have "disk w1 = snd (extract_members package (namelist package) path f)"
      by (auto simp: unpack_package_local_path_def extractall_def)
    with c show ?thesis by (simp add: extract_members_dir_chain)
  qed
qed

section \<open>The sample inputs, evaluated\<close>

lemma demo_package_simps:
  "is_zipfile demo_package" "pkg_name demo_package = ''demo.h5p''"
  "namelist demo_package = [''index.html'', ''../evil.js'', ''assets/x.png'']"
  "zip_read demo_package ''index.html'' = ''<html>''"
  "zip_read demo_package ''../evil.js'' = ''evil()''"
  "zip_read demo_package ''assets/x.png'' = ''PNG''"
  by (simp_all add: demo_package_def)


lemma update_package_simps:
  "is_zipfile update_package" "pkg_name update_package = ''update.h5p''"
  "namelist update_package = [''lib/'', ''lib/app.js'']"
  "zip_read update_package ''lib/app.js'' = ''app()''"
  by (simp_all add: update_package_def)

lemma demo_storage_simps:
  "st_exists demo_storage = demo_exists"
  "st_listdir demo_storage = demo_listdir"
  "st_delete demo_storage k m = (Inr ''None'', m(k := None))"
  "st_save demo_storage k b m = (Inr k, m(k \<mapsto> b))"
  by (simp_all add: demo_storage_def blob_storage_def)

lemma demo_local_simps:
  "logs demo_local = []"
  "disk demo_local = [[] \<mapsto> DirN, [''srv''] \<mapsto> DirN, [''srv'', ''h5p''] \<mapsto> DirN,
              [''srv'', ''h5p'', ''stale.js''] \<mapsto> FileN ''OLD'']"
  by (simp_all add: demo_local_def)

lemma arcname_simps:
  "arcname ''index.html'' = [''index.html'']"
  "arcname ''../evil.js'' = [''evil.js'']"
  "arcname ''assets/x.png'' = [''assets'', ''x.png'']"
  "arcname ''lib/'' = [''lib'']"
  "arcname ''lib/app.js'' = [''lib'', ''app.js'']"
  by (simp_all add: arcname_def)

lemma is_dir_simps:
  "\<not> is_dir ''index.html''" "\<not> is_dir ''../evil.js''" "\<not> is_dir ''assets/x.png''"
  "is_dir ''lib/''" "\<not> is_dir ''lib/app.js''"
  by (simp_all add: is_dir_def)

lemma demo_cleanup:
  "delete_existing_files_cloud 10 demo_storage ''h5p'' demo_world =
     (None, \<lparr>logs = [LogInfo ''h5p path is being deleted on cloud'',
                     LogInfo ''Future task completed: Result:[None]'',
                     LogInfo ''h5p/assets path is being deleted on cloud'',
                     LogInfo ''Future task completed: Result:[None]''],
             store = Map.empty,
             events = [Exists ''h5p'', Listdir ''h5p'', PoolOpen, Submit (Delete ''h5p/old.js''), PoolClose,
                       Exists ''h5p/assets'', Listdir ''h5p/assets'', PoolOpen,
                       Submit (Delete ''h5p/assets/y.png''), PoolClose]\<rparr>)"
  apply (simp add: demo_storage_def blob_storage_def demo_world_def demo_exists_def demo_listdir_def
           numeral_eq_Suc submit_def run_task_def os_path_join_def future_result_handler_def Let_def)
  done

lemma demo_upload:
  "unpack_and_upload_on_cloud 10 demo_package demo_storage ''h5p'' demo_world =
     (None, \<lparr>logs = [LogInfo ''h5p path is being deleted on cloud'',
                     LogInfo ''Future task completed: Result:[None]'',
                     LogInfo ''h5p/assets path is being deleted on cloud'',
                     LogInfo ''Future task completed: Result:[None]'',
                     LogInfo ''Future task completed: Result:[h5p/index.html]'',
                     LogInfo ''Future task completed: Result:[h5p/../evil.js]'',
                     LogInfo ''Future task completed: Result:[h5p/assets/x.png]''],
             store = [''h5p/index.html'' \<mapsto> ''<html>'', ''h5p/../evil.js'' \<mapsto> ''evil()'',
                      ''h5p/assets/x.png'' \<mapsto> ''PNG''],
             events = [Exists ''h5p'', Listdir ''h5p'', PoolOpen, Submit (Delete ''h5p/old.js''), PoolClose,
                       Exists ''h5p/assets'', Listdir ''h5p/assets'', PoolOpen,
                       Submit (Delete ''h5p/assets/y.png''), PoolClose,
                       PoolOpen, Submit (Save ''h5p/index.html'' ''<html>''),
                       Submit (Save ''h5p/../evil.js'' ''evil()''),
                       Submit (Save ''h5p/assets/x.png'' ''PNG''), PoolClose]\<rparr>)"
  by (simp add: unpack_and_upload_on_cloud_def demo_cleanup demo_package_simps Let_def
        os_path_join_def os_path_basename_def submit_def run_task_def demo_storage_simps
        future_result_handler_def)

lemma demo_first_extraction:
  "fst (unpack_package_local_path demo_package [''srv'', ''h5p''] demo_local) = None"
  "disk (snd (unpack_package_local_path demo_package [''srv'', ''h5p''] demo_local))
     [''srv'', ''h5p'', ''index.html''] = Some (FileN ''<html>'')"
  "disk (snd (unpack_package_local_path demo_package [''srv'', ''h5p''] demo_local))
     [''srv'', ''h5p'', ''stale.js''] = None"
  by (simp_all add: unpack_package_local_path_def delete_path_def os_path_exists_def shutil_rmtree_def
        os_makedirs_def is_file_def demo_local_simps demo_package_simps extractall_def
        extract_member_def arcname_simps is_dir_simps write_file_def parent_error_def os_mkdir_def Let_def)

lemma update_into_new_directory:
  "fst (extractall update_package [''srv'', ''h5p''] (new_directory [''srv'', ''h5p''])) = None"
  "snd (extractall update_package [''srv'', ''h5p''] (new_directory [''srv'', ''h5p'']))
     [''srv'', ''h5p'', ''index.html''] = None"
  "snd (extractall update_package [''srv'', ''h5p''] (new_directory [''srv'', ''h5p'']))
     [''srv'', ''h5p'', ''lib'', ''app.js''] = Some (FileN ''app()'')"
  by (simp_all add: update_package_simps extractall_def new_directory_def
        extract_member_def arcname_simps is_dir_simps write_file_def parent_error_def os_mkdir_def
        os_path_exists_def os_makedirs_def is_file_def Let_def)






section \<open>The claims\<close>

subsection \<open>C1: the archive \<open>index.html\<close>, \<open>../evil.js\<close>, \<open>assets/x.png\<close>\<close>

text \<open>
  C1 says that of the three entries only \<open>index.html\<close> and \<open>assets/x.png\<close> are written,
  and that \<open>../evil.js\<close> is skipped and logged. The filter looks at the basename of the
  joined path only, and the basename of \<open>h5p/../evil.js\<close> is \<open>evil.js\<close>: on the sample
  backend, with destination \<open>h5p\<close>, three write tasks are submitted, the second under the
  key \<open>h5p/../evil.js\<close>, and the log holds the two cleanup notices and one completion
  record per task, none of them about a skipped entry.
\<close>

theorem traversal_entry_is_written:
  "namelist demo_package = [''index.html'', ''../evil.js'', ''assets/x.png''] \<and>
   writes (events (snd (unpack_and_upload_on_cloud 10 demo_package demo_storage ''h5p'' demo_world))) =
     [(''h5p/index.html'', ''<html>''), (''h5p/../evil.js'', ''evil()''), (''h5p/assets/x.png'', ''PNG'')] \<and>
   logs (snd (unpack_and_upload_on_cloud 10 demo_package demo_storage ''h5p'' demo_world)) =
     [LogInfo ''h5p path is being deleted on cloud'',
      LogInfo ''Future task completed: Result:[None]'',
      LogInfo ''h5p/assets path is being deleted on cloud'',
      LogInfo ''Future task completed: Result:[None]'',
      LogInfo ''Future task completed: Result:[h5p/index.html]'',
      LogInfo ''Future task completed: Result:[h5p/../evil.js]'',
      LogInfo ''Future task completed: Result:[h5p/assets/x.png]'']"
  by (simp add: demo_upload writes_simps) (simp add: demo_package_def)

text \<open>
  C1, as amended: for an archive with exactly these three entries, on any backend and
  under any destination where the cleanup returns, write tasks for \<open>index.html\<close> and
  \<open>assets/x.png\<close> are submitted under the joined keys with the bytes read from the
  archive; and the upload phase logs one completion record per write task it submitted
  and nothing else, so no entry is ever logged as skipped.
\<close>

theorem plain_entries_written_no_skip_log:
  assumes "namelist package = [''index.html'', ''../evil.js'', ''assets/x.png'']"
      and "is_zipfile package"
      and "fst (delete_existing_files_cloud depth storage path w) = None"
  shows "(os_path_join path ''index.html'', zip_read package ''index.html'') \<in>
           set (writes (events (snd (unpack_and_upload_on_cloud depth package storage path w)))) \<and>
         (os_path_join path ''assets/x.png'', zip_read package ''assets/x.png'') \<in>
           set (writes (events (snd (unpack_and_upload_on_cloud depth package storage path w)))) \<and>
         (\<exists>outcomes.
            logs (snd (unpack_and_upload_on_cloud depth package storage path w)) =
              logs (snd (delete_existing_files_cloud depth storage path w)) @
              map future_result_handler outcomes \<and>
            length (writes (events (snd (unpack_and_upload_on_cloud depth package storage path w)))) =
              length (writes (events w)) + length outcomes)"
proof -
  have w: "writes (events (snd (unpack_and_upload_on_cloud depth package storage path w))) =
      writes (events w) @ map (\<lambda>n. (os_path_join path n, zip_read package n))
             (filter (\<lambda>n. os_path_basename n \<notin> {'''', ''.'', ''..''}) (namelist package))"
    using assms(2,3) by (simp add: upload_writes)
  have "os_path_basename ''index.html'' \<notin> {'''', ''.'', ''..''}"
    "os_path_basename ''assets/x.png'' \<notin> {'''', ''.'', ''..''}"
    by (simp_all add: os_path_basename_def)
  with w assms(1) have
    "(os_path_join path ''index.html'', zip_read package ''index.html'') \<in>
           set (writes (events (snd (unpack_and_upload_on_cloud depth package storage path w))))"
    "(os_path_join path ''assets/x.png'', zip_read package ''assets/x.png'') \<in>
           set (writes (events (snd (unpack_and_upload_on_cloud depth package storage path w))))"
    by simp_all
  moreover from upload_logs [OF assms(2,3)] w have "\<exists>outcomes.
            logs (snd (unpack_and_upload_on_cloud depth package storage path w)) =
              logs (snd (delete_existing_files_cloud depth storage path w)) @
              map future_result_handler outcomes \<and>
            length (writes (events (snd (unpack_and_upload_on_cloud depth package storage path w)))) =
              length (writes (events w)) + length outcomes"
    by auto
  ultimately show ?thesis by blast
qed

theorem plain_entries_written_no_skip_log_witness:
  "namelist demo_package = [''index.html'', ''../evil.js'', ''assets/x.png''] \<and>
   is_zipfile demo_package \<and>
   fst (delete_existing_files_cloud 10 demo_storage ''h5p'' demo_world) = None \<and>
   (''h5p/index.html'', ''<html>'') \<in>
      set (writes (events (snd (unpack_and_upload_on_cloud 10 demo_package demo_storage ''h5p'' demo_world)))) \<and>
   (''h5p/assets/x.png'', ''PNG'') \<in>
      set (writes (events (snd (unpack_and_upload_on_cloud 10 demo_package demo_storage ''h5p'' demo_world))))"
  using plain_entries_written_no_skip_log [of demo_package 10 demo_storage "''h5p''" demo_world]
    demo_cleanup
  by (simp add: demo_package_def os_path_join_def)

subsection \<open>C2: rejected basenames\<close>

text \<open>
  C2: an entry whose basename is empty, \<open>.\<close> or \<open>..\<close> is passed over by the loop without
  any effect (no task, no log record, no exception), and no write task of the whole call
  carries its joined path: a write for that path found in the trace afterwards was
  already there before the call.
\<close>

theorem rejected_basename_never_written:
  assumes "os_path_basename n \<in> {'''', ''.'', ''..''}"
      and "(os_path_join path n, content) \<notin> set (writes (events w))"
  shows "upload_entries package storage path [n] w = w \<and>
         (os_path_join path n, content) \<notin>
           set (writes (events (snd (unpack_and_upload_on_cloud depth package storage path w))))"
proof -
  from assms(1) have b: "os_path_basename (os_path_join path n) \<in> {'''', ''.'', ''..''}"
    by (simp only: basename_join)
  then have skip: "upload_entries package storage path [n] w = w"
    by (simp only: upload_entries.simps Let_def not_True_eq_False if_False)
  have "(os_path_join path n, content) \<noteq> (os_path_join path m, zip_read package m)"
    if "os_path_basename m \<notin> {'''', ''.'', ''..''}" for m
  proof
    assume "(os_path_join path n, content) = (os_path_join path m, zip_read package m)"
    then have "os_path_basename (os_path_join path n) = os_path_basename (os_path_join path m)"
      by simp
    then have "os_path_basename n = os_path_basename m" by (simp only: basename_join)
    with assms(1) that show False by simp
  qed
  then have "(os_path_join path n, content) \<notin>
      set (map (\<lambda>n. (os_path_join path n, zip_read package n))
             (filter (\<lambda>n. os_path_basename n \<notin> {'''', ''.'', ''..''}) (namelist package)))"
    by auto
  with assms(2) skip show ?thesis by (simp add: upload_writes)
qed

theorem rejected_basename_never_written_witness:
  "os_path_basename ''assets/'' \<in> {'''', ''.'', ''..''} \<and>
   ''assets/'' \<in> set (namelist dirs_package) \<and>
   upload_entries dirs_package demo_storage ''h5p'' [''assets/''] demo_world = demo_world \<and>
   (''h5p/assets/'', '''') \<notin>
     set (writes (events (snd (unpack_and_upload_on_cloud 10 dirs_package demo_storage ''h5p'' demo_world)))) \<and>
   writes (events (snd (unpack_and_upload_on_cloud 10 dirs_package demo_storage ''h5p'' demo_world)))
     = [(''h5p/index.html'', ''<html>'')]"
  using rejected_basename_never_written
          [of "''assets/''" "''h5p''" "''''" demo_world dirs_package demo_storage 10]
    upload_writes [of 10 dirs_package demo_storage "''h5p''" demo_world] demo_cleanup
  by (simp add: os_path_basename_def os_path_join_def dirs_package_def demo_world_def writes_simps)

subsection \<open>C3: an input that is not a zip\<close>

text \<open>
  C3: when \<open>is_zipfile\<close> rejects the package, the call returns at once; the trace and
  the backend state are what they were (no \<open>exists\<close>, no \<open>listdir\<close>, no task), and the
  one thing added is an error record that names the package.
\<close>

theorem invalid_archive_no_store_calls:
  assumes "\<not> is_zipfile package"
  shows "unpack_and_upload_on_cloud depth package storage path w =
           (None, w\<lparr>logs := logs w @ [LogError (pkg_name package @ '' is not a valid zip'')]\<rparr>) \<and>
         events (snd (unpack_and_upload_on_cloud depth package storage path w)) = events w \<and>
         store (snd (unpack_and_upload_on_cloud depth package storage path w)) = store w"
  using assms by (simp add: unpack_and_upload_on_cloud_def)

theorem invalid_archive_no_store_calls_witness:
  "\<not> is_zipfile text_package \<and>
   unpack_and_upload_on_cloud 10 text_package demo_storage ''h5p'' demo_world =
     (None, demo_world\<lparr>logs := [LogError ''notes.txt is not a valid zip'']\<rparr>) \<and>
   events (snd (unpack_and_upload_on_cloud 10 text_package demo_storage ''h5p'' demo_world)) = [] \<and>
   store (snd (unpack_and_upload_on_cloud 10 text_package demo_storage ''h5p'' demo_world)) ''h5p/old.js''
     = Some ''OLD''"
  using invalid_archive_no_store_calls [of text_package 10 demo_storage "''h5p''" demo_world]
  by (simp add: text_package_def demo_world_def)

subsection \<open>C4: one write per surviving entry\<close>

text \<open>
  C4: for a valid archive, once the cleanup has returned, the write tasks the call adds
  to the trace are exactly the entries whose basename is not empty, \<open>.\<close> or \<open>..\<close>, one
  task each, in the order of the archive's listing, each under the joined key and with
  the bytes \<open>read\<close> returns for that entry. The cleanup itself submits no write.
\<close>

theorem every_surviving_entry_written_once:
  assumes "is_zipfile package"
      and "fst (delete_existing_files_cloud depth storage path w) = None"
  shows "fst (unpack_and_upload_on_cloud depth package storage path w) = None \<and>
         writes (events (snd (unpack_and_upload_on_cloud depth package storage path w))) =
           writes (events w) @
           map (\<lambda>n. (os_path_join path n, zip_read package n))
             (filter (\<lambda>n. os_path_basename n \<notin> {'''', ''.'', ''..''}) (namelist package))"
  using assms by (simp add: upload_fst upload_writes)

theorem every_surviving_entry_written_once_witness:
  "is_zipfile dirs_package \<and>
   fst (delete_existing_files_cloud 10 demo_storage ''h5p'' demo_world) = None \<and>
   fst (unpack_and_upload_on_cloud 10 dirs_package demo_storage ''h5p'' demo_world) = None \<and>
   writes (events (snd (unpack_and_upload_on_cloud 10 dirs_package demo_storage ''h5p'' demo_world)))
     = [(''h5p/index.html'', ''<html>'')]"
  using every_surviving_entry_written_once [of dirs_package 10 demo_storage "''h5p''" demo_world]
    demo_cleanup
  by (simp add: os_path_basename_def os_path_join_def dirs_package_def demo_world_def writes_simps)

subsection \<open>C5: files already under the destination\<close>




subsection \<open>C6: local extraction of an input that is not a zip\<close>

text \<open>
  C6: when the package is not a zip, and no regular file stands at the destination or
  above it, the local extraction returns without an exception, the destination is a
  directory with nothing below it (whatever it held before is gone), and the one log
  record added is the error that names the package. A destination that does not exist
  is taken to have nothing below it, as on every filesystem.
\<close>

theorem invalid_archive_leaves_empty_directory:
  assumes "\<not> is_zipfile package"
      and "\<not> list_ex (\<lambda>q. is_file (disk w q)) (prefixes path)"
      and "disk w path = None \<Longrightarrow> contents path (disk w) = Map.empty"
  shows "fst (unpack_package_local_path package path w) = None \<and>
         contents path (disk (snd (unpack_package_local_path package path w))) = [path \<mapsto> DirN] \<and>
         logs (snd (unpack_package_local_path package path w)) =
           logs w @ [LogError (pkg_name package @ '' is not a valid zip'')]"
proof -
  from prepare_destination [OF assms(2,3)] obtain f0 f1 where
    d: "delete_path path w = (None, w\<lparr>disk := f0\<rparr>)" and m: "os_makedirs path f0 = Inr f1"
    and a: "agree path f1 (new_directory path)" by blast
  from a have "contents path f1 = [path \<mapsto> DirN]"
    by (simp add: agree_def contents_new_directory)
  with d m assms(1) show ?thesis by (simp add: unpack_package_local_path_def)
qed

theorem invalid_archive_leaves_empty_directory_witness:
  "fst (unpack_package_local_path text_package [''srv'', ''h5p''] demo_local) = None \<and>
   contents [''srv'', ''h5p''] (disk (snd (unpack_package_local_path text_package [''srv'', ''h5p''] demo_local)))
     = [[''srv'', ''h5p''] \<mapsto> DirN] \<and>
   logs (snd (unpack_package_local_path text_package [''srv'', ''h5p''] demo_local)) =
     [LogError ''notes.txt is not a valid zip''] \<and>
   disk demo_local [''srv'', ''h5p'', ''stale.js''] = Some (FileN ''OLD'')"
  using invalid_archive_leaves_empty_directory [of text_package demo_local "[''srv'', ''h5p'']"]
  by (simp add: text_package_def demo_local_def is_file_def)

subsection \<open>C7: two local extractions in a row\<close>

text \<open>
  C7: after a local extraction into a destination has returned, a second one with a
  valid archive ends as the extraction of that second archive into a new, empty
  directory ends, and leaves at and below the destination exactly what that extraction
  leaves: nothing of the first archive is merged in.
\<close>

theorem second_extraction_replaces_first:
  assumes "is_zipfile second"
      and "unpack_package_local_path first path w = (None, w1)"
  shows "fst (unpack_package_local_path second path w1) =
           fst (extractall second path (new_directory path)) \<and>
         contents path (disk (snd (unpack_package_local_path second path w1))) =
           contents path (snd (extractall second path (new_directory path)))"
proof -
  from assms(2) have c: "dir_chain path (disk w1)" by (rule unpack_dir_chain)
  then have "disk w1 path \<noteq> None" by (simp add: dir_chain_iff)
  with prepare_destination [OF dir_chain_no_file [OF c]] obtain f0 f1 where
    d: "delete_path path w1 = (None, w1\<lparr>disk := f0\<rparr>)" and m: "os_makedirs path f0 = Inr f1"
    and a: "agree path f1 (new_directory path)" by blast
  from agree_extract_members [OF a, of second "namelist second"]
  have "fst (extractall second path f1) = fst (extractall second path (new_directory path))"
    and "contents path (snd (extractall second path f1)) =
         contents path (snd (extractall second path (new_directory path)))"
    by (simp_all add: extractall_def agree_def)
  with d m assms(1) show ?thesis by (simp add: unpack_package_local_path_def)
qed

theorem second_extraction_replaces_first_witness:
  "is_zipfile update_package \<and>
   fst (unpack_package_local_path demo_package [''srv'', ''h5p''] demo_local) = None \<and>
   disk (snd (unpack_package_local_path demo_package [''srv'', ''h5p''] demo_local))
     [''srv'', ''h5p'', ''index.html''] = Some (FileN ''<html>'') \<and>
   fst (unpack_package_local_path update_package [''srv'', ''h5p'']
          (snd (unpack_package_local_path demo_package [''srv'', ''h5p''] demo_local))) = None \<and>
   contents [''srv'', ''h5p'']
     (disk (snd (unpack_package_local_path update_package [''srv'', ''h5p'']
          (snd (unpack_package_local_path demo_package [''srv'', ''h5p''] demo_local)))))
     [''srv'', ''h5p'', ''index.html''] = None \<and>
   contents [''srv'', ''h5p'']
     (disk (snd (unpack_package_local_path update_package [''srv'', ''h5p'']
          (snd (unpack_package_local_path demo_package [''srv'', ''h5p''] demo_local)))))
     [''srv'', ''h5p'', ''lib'', ''app.js''] = Some (FileN ''app()'')"
proof -
  have first: "unpack_package_local_path demo_package [''srv'', ''h5p''] demo_local =
      (None, snd (unpack_package_local_path demo_package [''srv'', ''h5p''] demo_local))"
    by (simp add: prod_eq_iff demo_first_extraction)
  from second_extraction_replaces_first [OF update_package_simps(1) first]
  show ?thesis
    by (simp add: update_package_simps demo_first_extraction update_into_new_directory contents_def)
qed

subsection \<open>C8: the order of the recursive cleanup\<close>

text \<open>
  C8: a call of \<open>delete_existing_files_cloud\<close> that the interpreter's recursion limit
  allows does the following. When the backend reports that the prefix does not exist,
  nothing happens beyond that one \<open>exists\<close> call: no task, no log record, no exception.
  When it exists, the directory is listed once, a pool is opened, one delete task per
  file of the directory is submitted to that pool with nothing in between, and the pool
  is closed; only then are the subdirectories processed, from the state reached at that
  point, and whatever they add to the trace comes after those events. Sibling files
  being deleted at the same time is rendered by their tasks sharing one pool scope.
\<close>

theorem cleanup_depth_sequential:
  "(\<not> st_exists storage path (store w) \<longrightarrow>
      delete_existing_files_cloud (Suc depth) storage path w =
        (None, w\<lparr>events := events w @ [Exists path]\<rparr>)) \<and>
   (st_exists storage path (store w) \<longrightarrow>
      (\<exists>w3. delete_existing_files_cloud (Suc depth) storage path w =
              delete_dirs depth storage path (fst (st_listdir storage path (store w))) w3 \<and>
            events w3 =
              events w @ [Exists path, Listdir path, PoolOpen] @
              map (\<lambda>file_name. Submit (Delete (os_path_join path file_name)))
                (snd (st_listdir storage path (store w))) @
              [PoolClose] \<and>
            prefix (events w3)
              (events (snd (delete_existing_files_cloud (Suc depth) storage path w)))))"
proof (intro conjI impI)
  assume "\<not> st_exists storage path (store w)"
  then show "delete_existing_files_cloud (Suc depth) storage path w =
        (None, w\<lparr>events := events w @ [Exists path]\<rparr>)" by simp
next
  assume ex: "st_exists storage path (store w)"
  define w1 where "w1 = w\<lparr>events := events w @ [Exists path, Listdir path, PoolOpen],
                    logs := logs w @ [LogInfo (path @ '' path is being deleted on cloud'')]\<rparr>"
  define w2 where "w2 = delete_files storage path (snd (st_listdir storage path (store w))) w1"
  define w3 where "w3 = w2\<lparr>events := events w2 @ [PoolClose]\<rparr>"
  have r: "delete_existing_files_cloud (Suc depth) storage path w =
             delete_dirs depth storage path (fst (st_listdir storage path (store w))) w3"
    using ex by (simp add: w1_def w2_def w3_def Let_def split: prod.splits)
  have e: "events w3 = events w @ [Exists path, Listdir path, PoolOpen] @
              map (\<lambda>file_name. Submit (Delete (os_path_join path file_name)))
                (snd (st_listdir storage path (store w))) @ [PoolClose]"
    by (simp add: w3_def w2_def w1_def events_delete_files)
  have "prefix (events w3) (events (snd (delete_existing_files_cloud (Suc depth) storage path w)))"
    unfolding r by (rule cleanup_prefix)
  with r e show "\<exists>w3. delete_existing_files_cloud (Suc depth) storage path w =
              delete_dirs depth storage path (fst (st_listdir storage path (store w))) w3 \<and>
            events w3 =
              events w @ [Exists path, Listdir path, PoolOpen] @
              map (\<lambda>file_name. Submit (Delete (os_path_join path file_name)))
                (snd (st_listdir storage path (store w))) @
              [PoolClose] \<and>
            prefix (events w3)
              (events (snd (delete_existing_files_cloud (Suc depth) storage path w)))"
    by blast
qed

theorem cleanup_depth_sequential_witness:
  "st_exists demo_storage ''h5p'' (store demo_world) \<and>
   events (snd (delete_existing_files_cloud (Suc 9) demo_storage ''h5p'' demo_world)) =
     [Exists ''h5p'', Listdir ''h5p'', PoolOpen, Submit (Delete ''h5p/old.js''), PoolClose,
      Exists ''h5p/assets'', Listdir ''h5p/assets'', PoolOpen,
      Submit (Delete ''h5p/assets/y.png''), PoolClose] \<and>
   \<not> st_exists demo_storage ''elsewhere'' (store demo_world) \<and>
   delete_existing_files_cloud (Suc 9) demo_storage ''elsewhere'' demo_world =
     (None, demo_world\<lparr>events := [Exists ''elsewhere'']\<rparr>)"
proof -
  have ten: "Suc 9 = 10" by simp
  have no: "\<not> st_exists demo_storage ''elsewhere'' (store demo_world)"
    by (simp add: demo_storage_def blob_storage_def demo_exists_def)
  have yes: "st_exists demo_storage ''h5p'' (store demo_world)"
    by (simp add: demo_storage_def blob_storage_def demo_exists_def)
  from cleanup_depth_sequential [of demo_storage "''elsewhere''" demo_world 9] no
  have "delete_existing_files_cloud (Suc 9) demo_storage ''elsewhere'' demo_world =
     (None, demo_world\<lparr>events := [Exists ''elsewhere'']\<rparr>)"
    by (simp add: demo_world_def)
  with no yes show ?thesis by (simp only: ten demo_cleanup) simp
qed

subsection \<open>C10: a destination that does not exist yet\<close>

text \<open>
  C10: when the destination does not exist, \<open>delete_path\<close> changes nothing and raises
  nothing, and the local extraction goes on to \<open>os.makedirs\<close> on the untouched
  filesystem: if that raises, the call ends with that exception and no effect; if not,
  the destination is a directory when the call ends.
\<close>

theorem fresh_destination_cleanup_is_noop:
  assumes "\<not> os_path_exists path (disk w)"
  shows "delete_path path w = (None, w) \<and>
         (case os_makedirs path (disk w) of
            Inl e \<Rightarrow> unpack_package_local_path package path w = (Some e, w)
          | Inr f \<Rightarrow> disk (snd (unpack_package_local_path package path w)) path = Some DirN)"
proof -
  from assms have d: "delete_path path w = (None, w)" by (simp add: delete_path_def)
  show ?thesis
  proof (cases "os_makedirs path (disk w)")
    case (Inl e)
    with d show ?thesis by (simp add: unpack_package_local_path_def)
  next
    case (Inr f)
    then have c: "dir_chain path f" by (rule makedirs_dir_chain)
    then have "dir_chain path (snd (extractall package path f))"
      by (simp add: extractall_def extract_members_dir_chain)
    with c have "f path = Some DirN" "snd (extractall package path f) path = Some DirN"
      by (simp_all add: dir_chain_iff)
    with d Inr show ?thesis by (simp add: unpack_package_local_path_def)
  qed
qed

theorem fresh_destination_cleanup_is_noop_witness:
  "\<not> os_path_exists [''srv'', ''new''] (disk demo_local) \<and>
   delete_path [''srv'', ''new''] demo_local = (None, demo_local) \<and>
   disk (snd (unpack_package_local_path demo_package [''srv'', ''new''] demo_local)) [''srv'', ''new'']
     = Some DirN"
  using fresh_destination_cleanup_is_noop [of "[''srv'', ''new'']" demo_local demo_package]
  by (simp add: os_path_exists_def demo_local_simps os_makedirs_def is_file_def)

end
